theory Spec2Isabelle
  imports Complex_Main "HOL-Library.Sublist"
begin

section \<open>Silence trimming: the interval pipeline of Silence.py\<close>

text \<open>
  The script detects silent spans on one audio track, inverts them into the spans to keep,
  cuts one segment file per kept span and concatenates the segments.

  Modelling decisions, valid for the whole theory:
  \<^item> A Python \<open>float\<close> holding a time in seconds is a \<open>real\<close>: the subtraction and the
    comparison of the sweep are exact. Rounding, infinities and NaN are not modelled.
  \<^item> A Python \<open>str\<close> is a \<open>string\<close>, a list of 8-bit characters read as the code points
    0 to 255.
  \<^item> The external programs (ffmpeg, ffprobe) and the library functions whose result the
    source does not determine (\<open>float\<close>, the formatting of a float, \<open>os.path.join\<close>, the
    name of the temporary directory) are fields of a \<open>runtime\<close> record; every theorem holds
    for every runtime unless it says otherwise.
  \<^item> What the script does to the outside world is an event log: the commands it ran and the
    text files it wrote, in order. \<open>print\<close> calls are not modelled.
\<close>

subsection \<open>Interval inversion\<close>

type_synonym interval = "real \<times> real"

text \<open>
  The body of the \<open>for\<close> loop of \<open>compute_nonsilent_intervals\<close>: the loop state is the
  pair of the list \<open>intervals\<close> and the variable \<open>prev_end\<close>.
\<close>

definition sweep_step ::
  "real \<Rightarrow> interval \<Rightarrow> interval list \<times> real \<Rightarrow> interval list \<times> real" where
  "sweep_step min_gap silence st =
     (case silence of (start, end) \<Rightarrow>
      case st of (intervals, prev_end) \<Rightarrow>
        (if start - prev_end > min_gap then intervals @ [(prev_end, start)] else intervals,
         end))"

definition compute_nonsilent_intervals :: "interval list \<Rightarrow> real \<Rightarrow> real \<Rightarrow> interval list" where
  "compute_nonsilent_intervals silence_intervals video_duration min_gap =
     (case fold (sweep_step min_gap) silence_intervals ([], 0) of (intervals, prev_end) \<Rightarrow>
        if video_duration - prev_end > min_gap
        then intervals @ [(prev_end, video_duration)] else intervals)"

text \<open>The loop state after the \<open>for\<close> loop has gone through a list of silences.\<close>

definition sweep_state :: "real \<Rightarrow> interval list \<Rightarrow> interval list \<times> real" where
  "sweep_state min_gap silence_intervals = fold (sweep_step min_gap) silence_intervals ([], 0)"

text \<open>
  Two intervals do not overlap when their interiors (the open intervals) are disjoint;
  they may share an endpoint. The open intervals \<open>(a, b)\<close> and \<open>(c, d)\<close> meet in
  \<open>(max a c, min b d)\<close>, which is empty exactly when \<open>min b d \<le> max a c\<close>.
\<close>

definition disjoint_interiors :: "interval \<Rightarrow> interval \<Rightarrow> bool" where
  "disjoint_interiors a b = (min (snd a) (snd b) \<le> max (fst a) (fst b))"

text \<open>Pairwise: every two entries at different positions.\<close>

definition non_overlapping :: "interval list \<Rightarrow> bool" where
  "non_overlapping xs = sorted_wrt disjoint_interiors xs"

text \<open>Strictly increasing in time: a later entry starts later and ends later.\<close>

definition strictly_increasing :: "interval list \<Rightarrow> bool" where
  "strictly_increasing xs = sorted_wrt (\<lambda>a b. fst a < fst b \<and> snd a < snd b) xs"

text \<open>
  A valid silence report for a given total duration: every entry is a time interval
  (\<open>0 \<le> start < end\<close>) inside \<open>[0, total_duration]\<close>, the entries are sorted by start and
  do not overlap.
\<close>

definition valid_report :: "real \<Rightarrow> interval list \<Rightarrow> bool" where
  "valid_report total_duration xs =
     ((\<forall>iv \<in> set xs. 0 \<le> fst iv \<and> fst iv < snd iv \<and> snd iv \<le> total_duration)
      \<and> sorted (map fst xs) \<and> non_overlapping xs)"

text \<open>
  For the proofs: the candidate spans the sweep looks at, from a given \<open>prev_end\<close>, the value
  of \<open>prev_end\<close> after the loop, and the shape of a report that starts at or after
  \<open>prev_end\<close> with each silence ending before the next begins.
\<close>

fun spans :: "real \<Rightarrow> interval list \<Rightarrow> interval list" where
  "spans p [] = []"
| "spans p (s # ss) = (p, fst s) # spans (snd s) ss"

fun last_end :: "real \<Rightarrow> interval list \<Rightarrow> real" where
  "last_end p [] = p"
| "last_end p (s # ss) = last_end (snd s) ss"

fun chain :: "real \<Rightarrow> interval list \<Rightarrow> bool" where
  "chain p [] = True"
| "chain p (s # ss) = (p \<le> fst s \<and> fst s < snd s \<and> chain (snd s) ss)"

subsection \<open>Strings\<close>

definition is_digit :: "char \<Rightarrow> bool" where
  "is_digit c = (c \<in> set ''0123456789'')"

text \<open>
  The characters below 256 for which \<open>str.isspace\<close> holds; they are the ones that
  \<open>\s\<close> matches and that \<open>strip\<close> removes.
\<close>

definition is_space :: "char \<Rightarrow> bool" where
  "is_space c = (c \<in> set [CHR 0x09, CHR 0x0A, CHR 0x0B, CHR 0x0C, CHR 0x0D,
                           CHR 0x1C, CHR 0x1D, CHR 0x1E, CHR 0x1F, CHR 0x20,
                           CHR 0x85, CHR 0xA0])"

definition strip :: "string \<Rightarrow> string" where
  "strip s = rev (dropWhile is_space (rev (dropWhile is_space s)))"

text \<open>The line boundaries of \<open>str.splitlines\<close> below 256; CR LF counts as one.\<close>

definition is_linebreak :: "char \<Rightarrow> bool" where
  "is_linebreak c = (c \<in> set [CHR 0x0A, CHR 0x0B, CHR 0x0C, CHR 0x0D,
                               CHR 0x1C, CHR 0x1D, CHR 0x1E, CHR 0x85])"

fun splitlines_from :: "string \<Rightarrow> string \<Rightarrow> string list" where
  "splitlines_from cur [] = (if cur = [] then [] else [cur])"
| "splitlines_from cur [c] =
     (if is_linebreak c then [cur] else [cur @ [c]])"
| "splitlines_from cur (c # d # cs) =
     (if c = CHR 0x0D \<and> d = CHR 0x0A then cur # splitlines_from [] cs
      else if is_linebreak c then cur # splitlines_from [] (d # cs)
      else splitlines_from (cur @ [c]) (d # cs))"

definition splitlines :: "string \<Rightarrow> string list" where
  "splitlines s = splitlines_from [] s"

text \<open>
  The decimal digits of a natural number, as \<open>f"{idx}"\<close> prints an index, and of an
  integer, as \<open>f"{audio_track}"\<close> prints the track number.
\<close>

fun str_nat :: "nat \<Rightarrow> string" where
  "str_nat n =
     (if n < 10 then [char_of (48 + n)]
      else str_nat (n div 10) @ [char_of (48 + n mod 10)])"

declare str_nat.simps [simp del]

definition str_int :: "int \<Rightarrow> string" where
  "str_int i = (if i < 0 then ''-'' @ str_nat (nat (- i)) else str_nat (nat i))"

subsection \<open>The pattern of the detector's log lines\<close>

text \<open>
  \<open>re.search(key + r"\s?(\d+\.?\d*)", line)\<close> for a literal \<open>key\<close>, returning group 1.

  At one position the match is: the literal; then \<open>\s?\<close> (\<open>skip_space\<close>), greedy, which
  takes a following white-space character (giving it back cannot help, since \<open>\d+\<close> would
  then have to match that same white-space character); then the group
  (\<open>capture_number\<close>): \<open>\d+\<close>, at least one digit and as many as there are, then
  \<open>\.?\<close> and \<open>\d*\<close>, which always succeed and take a dot and the digits after it when
  they are there. \<open>re.search\<close> returns the match at the leftmost position that has
  one.
\<close>

definition skip_space :: "string \<Rightarrow> string" where
  "skip_space r = (case r of [] \<Rightarrow> [] | c # cs \<Rightarrow> if is_space c then cs else r)"

definition capture_number :: "string \<Rightarrow> string option" where
  "capture_number r =
     (let whole = takeWhile is_digit r; rest = dropWhile is_digit r
      in if whole = [] then None
         else (case rest of
                 [] \<Rightarrow> Some whole
               | c # cs \<Rightarrow>
                   if c = CHR ''.'' then Some (whole @ CHR ''.'' # takeWhile is_digit cs)
                   else Some whole))"

definition match_here :: "string \<Rightarrow> string \<Rightarrow> string option" where
  "match_here key s =
     (if prefix key s then capture_number (skip_space (drop (length key) s)) else None)"

fun re_search :: "string \<Rightarrow> string \<Rightarrow> string option" where
  "re_search key [] = match_here key []"
| "re_search key (c # cs) =
     (case match_here key (c # cs) of
        Some g \<Rightarrow> Some g
      | None \<Rightarrow> re_search key cs)"

text \<open>The strings the group can capture: digits, then possibly a dot and digits.\<close>

definition decimal_literal :: "string \<Rightarrow> bool" where
  "decimal_literal s =
     (let whole = takeWhile is_digit s; r = dropWhile is_digit s
      in whole \<noteq> [] \<and> (r = [] \<or> (hd r = CHR ''.'' \<and> list_all is_digit (tl r))))"

subsection \<open>The outside world\<close>

type_synonym cmd = "string list"

text \<open>
  What \<open>subprocess.run\<close> meets: the program cannot be started (an \<open>OSError\<close> in Python),
  or it runs to completion with a return code and its two output streams.
\<close>

datatype proc = LaunchFailure | Completed int string string

datatype event = Ran cmd | Wrote string string | Cleaned string

datatype exn = SystemExit int | OSError | CalledProcessError int cmd | ValueError

record runtime =
  run_process :: "event list \<Rightarrow> cmd \<Rightarrow> proc"
  py_float :: "string \<Rightarrow> real option"
  fmt_float :: "real \<Rightarrow> string"
  path_join :: "string \<Rightarrow> string \<Rightarrow> string"
  mkdtemp :: "event list \<Rightarrow> string"

text \<open>
  \<open>run_process\<close> is what the external program does, given everything that happened before;
  \<open>py_float\<close> is \<open>float\<close>, with \<open>None\<close> for \<open>ValueError\<close>; \<open>fmt_float\<close> is \<open>f"{x}"\<close> on a
  float; \<open>mkdtemp\<close> is the name of the directory that \<open>tempfile.TemporaryDirectory\<close> creates.
\<close>

definition subprocess_run ::
  "runtime \<Rightarrow> bool \<Rightarrow> cmd \<Rightarrow> event list \<Rightarrow> (exn + string \<times> string) \<times> event list" where
  "subprocess_run rt check cmd evs =
     (case run_process rt evs cmd of
        LaunchFailure \<Rightarrow> (Inl OSError, evs)
      | Completed returncode out err \<Rightarrow>
          if check \<and> returncode \<noteq> 0
          then (Inl (CalledProcessError returncode cmd), evs @ [Ran cmd])
          else (Inr (out, err), evs @ [Ran cmd]))"

subsection \<open>detect_silence\<close>

definition detect_cmd :: "string \<Rightarrow> string \<Rightarrow> string \<Rightarrow> int \<Rightarrow> cmd" where
  "detect_cmd input_file noise duration audio_track =
     [''ffmpeg'', ''-i'', input_file,
      ''-map'', ''0:a:'' @ str_int audio_track,
      ''-af'', ''silencedetect=noise='' @ noise @ '':d='' @ duration,
      ''-f'', ''null'', ''-'']"

text \<open>
  One of the two \<open>if\<close> blocks of the loop over the lines: when the line contains the word
  and the pattern matches, the parsed number is appended to the list.
\<close>

definition collect :: "runtime \<Rightarrow> string \<Rightarrow> string \<Rightarrow> real list \<Rightarrow> exn + real list" where
  "collect rt word line acc =
     (if sublist word line then
        (case re_search (word @ '':'') line of
           None \<Rightarrow> Inr acc
         | Some g \<Rightarrow>
             (case py_float rt g of
                None \<Rightarrow> Inl ValueError
              | Some v \<Rightarrow> Inr (acc @ [v])))
      else Inr acc)"

fun scan_lines ::
  "runtime \<Rightarrow> string list \<Rightarrow> real list \<times> real list \<Rightarrow> exn + real list \<times> real list" where
  "scan_lines rt [] st = Inr st"
| "scan_lines rt (line # rest) (silence_starts, silence_ends) =
     (case collect rt ''silence_start'' line silence_starts of
        Inl e \<Rightarrow> Inl e
      | Inr silence_starts' \<Rightarrow>
          (case collect rt ''silence_end'' line silence_ends of
             Inl e \<Rightarrow> Inl e
           | Inr silence_ends' \<Rightarrow> scan_lines rt rest (silence_starts', silence_ends')))"

text \<open>The pairing loop: \<open>for i in range(min(len(starts), len(ends)))\<close>.\<close>

definition pair_up :: "real list \<Rightarrow> real list \<Rightarrow> interval list" where
  "pair_up silence_starts silence_ends =
     fold (\<lambda>i intervals. intervals @ [(silence_starts ! i, silence_ends ! i)])
       [0 ..< min (length silence_starts) (length silence_ends)] []"

text \<open>The part of \<open>detect_silence\<close> after the external call, on the detector's text.\<close>

definition parse_silence :: "runtime \<Rightarrow> string \<Rightarrow> exn + interval list" where
  "parse_silence rt output =
     (case scan_lines rt (splitlines output) ([], []) of
        Inl e \<Rightarrow> Inl e
      | Inr (silence_starts, silence_ends) \<Rightarrow> Inr (pair_up silence_starts silence_ends))"

definition detect_silence ::
  "runtime \<Rightarrow> string \<Rightarrow> string \<Rightarrow> string \<Rightarrow> int \<Rightarrow> event list
     \<Rightarrow> (exn + interval list) \<times> event list" where
  "detect_silence rt input_file noise duration audio_track evs =
     (case subprocess_run rt False (detect_cmd input_file noise duration audio_track) evs of
        (Inl e, evs') \<Rightarrow> (Inl e, evs')
      | (Inr (out, err), evs') \<Rightarrow> (parse_silence rt err, evs'))"

subsection \<open>get_video_duration\<close>

definition probe_cmd :: "string \<Rightarrow> cmd" where
  "probe_cmd input_file =
     [''ffprobe'', ''-i'', input_file, ''-show_entries'', ''format=duration'',
      ''-v'', ''quiet'', ''-of'', ''csv=p=0'']"

definition get_video_duration ::
  "runtime \<Rightarrow> string \<Rightarrow> event list \<Rightarrow> (exn + real) \<times> event list" where
  "get_video_duration rt input_file evs =
     (case subprocess_run rt False (probe_cmd input_file) evs of
        (Inl e, evs') \<Rightarrow> (Inl e, evs')
      | (Inr (out, err), evs') \<Rightarrow>
          (case py_float rt (strip out) of
             Some d \<Rightarrow> (Inr d, evs')
           | None \<Rightarrow> (Inl (SystemExit 1), evs')))"

subsection \<open>cut_video_segments\<close>

definition segment_path :: "runtime \<Rightarrow> string \<Rightarrow> nat \<Rightarrow> string" where
  "segment_path rt temp_dir idx = path_join rt temp_dir (''segment_'' @ str_nat idx @ ''.mp4'')"

definition cut_cmd :: "runtime \<Rightarrow> string \<Rightarrow> bool \<Rightarrow> interval \<Rightarrow> string \<Rightarrow> cmd" where
  "cut_cmd rt input_file reencode iv output_segment =
     (case iv of (start, end) \<Rightarrow>
        let duration = end - start in
        if reencode then
          [''ffmpeg'', ''-y'', ''-i'', input_file,
           ''-ss'', fmt_float rt start, ''-to'', fmt_float rt end,
           ''-map'', ''0'', ''-c:v'', ''libx264'', ''-preset'', ''veryfast'',
           ''-crf'', ''18'', ''-c:a'', ''aac'', ''-b:a'', ''192k'', output_segment]
        else
          [''ffmpeg'', ''-y'', ''-ss'', fmt_float rt start, ''-i'', input_file,
           ''-t'', fmt_float rt duration, ''-map'', ''0:v'', ''-map'', ''0:a'',
           ''-c'', ''copy'', ''-movflags'', ''+faststart'', ''-fflags'', ''+genpts'',
           output_segment])"

text \<open>
  The loop over \<open>enumerate(intervals)\<close>: \<open>idx\<close> is the index of the next interval and
  \<open>segment_files\<close> the list built so far. \<open>check=True\<close> makes a non-zero return code an
  exception, which ends the loop.
\<close>

fun cut_loop ::
  "runtime \<Rightarrow> string \<Rightarrow> string \<Rightarrow> bool \<Rightarrow> nat \<Rightarrow> interval list \<Rightarrow> string list \<Rightarrow> event list
     \<Rightarrow> (exn + string list) \<times> event list" where
  "cut_loop rt input_file temp_dir reencode idx [] segment_files evs = (Inr segment_files, evs)"
| "cut_loop rt input_file temp_dir reencode idx (iv # rest) segment_files evs =
     (let output_segment = segment_path rt temp_dir idx in
      case subprocess_run rt True (cut_cmd rt input_file reencode iv output_segment) evs of
        (Inl e, evs') \<Rightarrow> (Inl e, evs')
      | (Inr r, evs') \<Rightarrow>
          cut_loop rt input_file temp_dir reencode (Suc idx) rest
            (segment_files @ [output_segment]) evs')"

definition cut_video_segments ::
  "runtime \<Rightarrow> string \<Rightarrow> interval list \<Rightarrow> string \<Rightarrow> bool \<Rightarrow> event list
     \<Rightarrow> (exn + string list) \<times> event list" where
  "cut_video_segments rt input_file intervals temp_dir reencode evs =
     cut_loop rt input_file temp_dir reencode 0 intervals [] evs"

subsection \<open>concat_segments\<close>

definition manifest_line :: "string \<Rightarrow> string" where
  "manifest_line seg = ''file '' @ [CHR 0x27] @ seg @ [CHR 0x27, CHR 0x0A]"

text \<open>The text written to the list file: one \<open>f.write\<close> per segment.\<close>

definition manifest_text :: "string list \<Rightarrow> string" where
  "manifest_text segment_files =
     fold (\<lambda>seg written. written @ manifest_line seg) segment_files []"

definition concat_cmd :: "string \<Rightarrow> string \<Rightarrow> cmd" where
  "concat_cmd list_file output_file =
     [''ffmpeg'', ''-y'', ''-f'', ''concat'', ''-safe'', ''0'', ''-i'', list_file,
      ''-map'', ''0:v'', ''-map'', ''0:a'', ''-c'', ''copy'',
      ''-movflags'', ''+faststart'', output_file]"

definition concat_segments ::
  "runtime \<Rightarrow> string list \<Rightarrow> string \<Rightarrow> string \<Rightarrow> event list \<Rightarrow> (exn + unit) \<times> event list" where
  "concat_segments rt segment_files output_file temp_dir evs =
     (let list_file = path_join rt temp_dir ''segments.txt'';
          evs1 = evs @ [Wrote list_file (manifest_text segment_files)]
      in case subprocess_run rt True (concat_cmd list_file output_file) evs1 of
           (Inl e, evs') \<Rightarrow> (Inl e, evs')
         | (Inr r, evs') \<Rightarrow> (Inr (), evs'))"

subsection \<open>main\<close>

record args =
  arg_input :: string
  arg_output :: string
  arg_noise :: string
  arg_duration :: string
  arg_audio_track :: int
  arg_reencode :: bool

text \<open>
  \<open>compute_nonsilent_intervals\<close> is called with its default \<open>min_gap = 0.1\<close>. The
  The fields of \<open>args\<close> are the parsed command line. The
  \<open>with\<close> block removes the temporary directory when it is left, also by an exception.
\<close>

definition main :: "runtime \<Rightarrow> args \<Rightarrow> event list \<Rightarrow> (exn + unit) \<times> event list" where
  "main rt a evs =
     (case detect_silence rt (arg_input a) (arg_noise a) (arg_duration a) (arg_audio_track a) evs of
        (Inl e, evs1) \<Rightarrow> (Inl e, evs1)
      | (Inr silence_intervals, evs1) \<Rightarrow>
          (case get_video_duration rt (arg_input a) evs1 of
             (Inl e, evs2) \<Rightarrow> (Inl e, evs2)
           | (Inr video_duration, evs2) \<Rightarrow>
               let nonsilent_intervals =
                     compute_nonsilent_intervals silence_intervals video_duration (1 / 10)
               in if nonsilent_intervals = [] then (Inl (SystemExit 1), evs2)
                  else
                    let temp_dir = mkdtemp rt evs2 in
                    (case cut_video_segments rt (arg_input a) nonsilent_intervals temp_dir
                            (arg_reencode a) evs2 of
                       (Inl e, evs3) \<Rightarrow> (Inl e, evs3 @ [Cleaned temp_dir])
                     | (Inr segment_files, evs3) \<Rightarrow>
                         (case concat_segments rt segment_files (arg_output a) temp_dir evs3 of
                            (r, evs4) \<Rightarrow> (r, evs4 @ [Cleaned temp_dir])))))"

text \<open>
  A reference \<open>float\<close> for decimal literals, used to run the model on concrete logs: the
  value of the digits before the dot plus the value of the digits after it.
\<close>

definition digits_value :: "string \<Rightarrow> nat" where
  "digits_value ds = foldl (\<lambda>n c. 10 * n + (of_char c - 48)) 0 ds"

definition decimal_float :: "string \<Rightarrow> real option" where
  "decimal_float s =
     (if decimal_literal s then
        let whole = takeWhile is_digit s; frac = drop (Suc (length whole)) s
        in Some (real (digits_value whole) + real (digits_value frac) / 10 ^ length frac)
      else None)"

definition posix_join :: "string \<Rightarrow> string \<Rightarrow> string" where
  "posix_join a b =
     (if b \<noteq> [] \<and> hd b = CHR ''/'' then b
      else if a = [] \<or> last a = CHR ''/'' then a @ b
      else a @ ''/'' @ b)"

text \<open>
  A reference runtime, used to run the model: the detector prints a given log on its error
  stream, the prober prints a given text, every command returns 0; a float is formatted
  by its integer part, which is enough to tell the commands apart.
\<close>

definition reference_runtime :: "string \<Rightarrow> string \<Rightarrow> runtime" where
  "reference_runtime detector_log probe_text =
     \<lparr> run_process = (\<lambda>evs cmd.
          if cmd \<noteq> [] \<and> hd cmd = ''ffprobe'' then Completed 0 probe_text []
          else Completed 0 [] detector_log),
       py_float = decimal_float,
       fmt_float = (\<lambda>x. str_int \<lfloor>x\<rfloor>),
       path_join = posix_join,
       mkdtemp = (\<lambda>evs. ''/tmp/tmpsilence'') \<rparr>"

text \<open>Scenario D: a detector log with three start lines and two end lines.\<close>

definition scenario_d_log :: string where
  "scenario_d_log =
     ''[silencedetect @ 0x55d0] silence_start: 1.5'' @ [CHR 0x0A] @
     ''[silencedetect @ 0x55d0] silence_end: 3.2 | silence_duration: 1.7'' @ [CHR 0x0A] @
     ''[silencedetect @ 0x55d0] silence_start: 10'' @ [CHR 0x0A] @
     ''[silencedetect @ 0x55d0] silence_end: 12.25 | silence_duration: 2.25'' @ [CHR 0x0A] @
     ''[silencedetect @ 0x55d0] silence_start: 28.5'' @ [CHR 0x0A]"

text \<open>Scenario C: the whole file is one silence.\<close>

definition scenario_c_log :: string where
  "scenario_c_log =
     ''[silencedetect @ 0x55d0] silence_start: 0'' @ [CHR 0x0A] @
     ''[silencedetect @ 0x55d0] silence_end: 15 | silence_duration: 15'' @ [CHR 0x0A]"

definition example_args :: args where
  "example_args =
     \<lparr> arg_input = ''in.mp4'', arg_output = ''out.mp4'', arg_noise = ''-50dB'',
       arg_duration = ''0.5'', arg_audio_track = 0, arg_reencode = False \<rparr>"

text \<open>
  The exit status of the process. The script calls \<open>main(args)\<close> with no handler around
  it: a normal return ends the process with status 0, \<open>sys.exit(c)\<close> with status \<open>c\<close>,
  and any other exception, being uncaught, makes the interpreter print a traceback and end
  with status 1.
\<close>

fun exit_status :: "exn + unit \<Rightarrow> int" where
  "exit_status (Inr u) = 0"
| "exit_status (Inl (SystemExit c)) = c"
| "exit_status (Inl e) = 1"

text \<open>A runtime on which no external program can be started.\<close>

definition launch_failure_runtime :: runtime where
  "launch_failure_runtime =
     \<lparr> run_process = (\<lambda>evs cmd. LaunchFailure),
       py_float = decimal_float,
       fmt_float = (\<lambda>x. str_int \<lfloor>x\<rfloor>),
       path_join = posix_join,
       mkdtemp = (\<lambda>evs. ''/tmp/tmpsilence'') \<rparr>"

section \<open>Properties of the interval inversion\<close>

subsection \<open>The sweep as a filter\<close>

lemma disjoint_interiors_open:
  "disjoint_interiors a b \<longleftrightarrow> {fst a <..< snd a} \<inter> {fst b <..< snd b} = {}"
  by (simp add: disjoint_interiors_def Int_greaterThanLessThan)

lemma fold_sweep:
  "fold (sweep_step g) xs (acc, p) =
     (acc @ filter (\<lambda>k. snd k - fst k > g) (spans p xs), last_end p xs)"
  by (induction xs arbitrary: acc p) (auto simp: sweep_step_def split: prod.splits)

lemma sweep_state_eq:
  "sweep_state g xs = (filter (\<lambda>k. snd k - fst k > g) (spans 0 xs), last_end 0 xs)"
  by (simp add: sweep_state_def fold_sweep)

lemma compute_filter:
  "compute_nonsilent_intervals xs t g =
     filter (\<lambda>k. snd k - fst k > g) (spans 0 xs @ [(last_end 0 xs, t)])"
  by (simp add: compute_nonsilent_intervals_def fold_sweep)

lemma spans_append: "spans p (xs @ ys) = spans p xs @ spans (last_end p xs) ys"
  by (induction xs arbitrary: p) simp_all

lemma last_end_append: "last_end p (xs @ ys) = last_end (last_end p xs) ys"
  by (induction xs arbitrary: p) simp_all

subsection \<open>Reports whose silences follow one another\<close>

lemma chain_lower: "chain p xs \<Longrightarrow> \<forall>s \<in> set xs. p \<le> fst s \<and> fst s < snd s"
proof (induction xs arbitrary: p)
  case Nil
  show ?case by simp
next
  case (Cons x xs)
  from Cons.prems have c: "chain (snd x) xs" and px: "p \<le> fst x" and xx: "fst x < snd x"
    by simp_all
  from Cons.IH [OF c] have "\<forall>s \<in> set xs. snd x \<le> fst s \<and> fst s < snd s" .
  with px xx show ?case by force
qed

lemma chain_spans_lower:
  "chain p xs \<Longrightarrow> \<forall>k \<in> set (spans p xs @ [(last_end p xs, t)]). p \<le> fst k"
proof (induction xs arbitrary: p)
  case Nil
  show ?case by simp
next
  case (Cons x xs)
  from Cons.prems have c: "chain (snd x) xs" and px: "p \<le> fst x" and xx: "fst x < snd x"
    by simp_all
  from Cons.IH [OF c]
  have "\<forall>k \<in> set (spans (snd x) xs @ [(last_end (snd x) xs, t)]). snd x \<le> fst k" .
  with px xx show ?case by force
qed

lemma chain_spans_sorted:
  "chain p xs \<Longrightarrow> sorted_wrt (\<lambda>a b. snd a < fst b) (spans p xs @ [(last_end p xs, t)])"
proof (induction xs arbitrary: p)
  case Nil
  show ?case by simp
next
  case (Cons x xs)
  from Cons.prems have c: "chain (snd x) xs" and xx: "fst x < snd x" by simp_all
  from chain_spans_lower [OF c, of t] xx
  have "\<forall>k \<in> set (spans (snd x) xs @ [(last_end (snd x) xs, t)]). fst x < fst k" by force
  with Cons.IH [OF c] show ?case by simp
qed

lemma chain_spans_disjoint:
  "chain p xs \<Longrightarrow>
   \<forall>k \<in> set (spans p xs @ [(last_end p xs, t)]). \<forall>s \<in> set xs.
      snd k \<le> fst s \<or> snd s \<le> fst k"
proof (induction xs arbitrary: p)
  case Nil
  show ?case by simp
next
  case (Cons x xs)
  from Cons.prems have c: "chain (snd x) xs" and xx: "fst x < snd x" by simp_all
  have later: "\<forall>k \<in> set (spans (snd x) xs @ [(last_end (snd x) xs, t)]). snd x \<le> fst k"
    by (rule chain_spans_lower [OF c])
  have sil: "\<forall>s \<in> set xs. snd x \<le> fst s" using chain_lower [OF c] by blast
  have ih: "\<forall>k \<in> set (spans (snd x) xs @ [(last_end (snd x) xs, t)]). \<forall>s \<in> set xs.
      snd k \<le> fst s \<or> snd s \<le> fst k"
    by (rule Cons.IH [OF c])
  show ?case
  proof (intro ballI)
    fix k s
    assume k: "k \<in> set (spans p (x # xs) @ [(last_end p (x # xs), t)])"
      and s: "s \<in> set (x # xs)"
    from k have "k = (p, fst x) \<or> k \<in> set (spans (snd x) xs @ [(last_end (snd x) xs, t)])"
      by auto
    then show "snd k \<le> fst s \<or> snd s \<le> fst k"
    proof
      assume "k = (p, fst x)"
      with s sil xx show ?thesis by auto
    next
      assume k': "k \<in> set (spans (snd x) xs @ [(last_end (snd x) xs, t)])"
      from s have "s = x \<or> s \<in> set xs" by simp
      then show ?thesis
      proof
        assume "s = x"
        with later k' show ?thesis by blast
      next
        assume "s \<in> set xs"
        with ih k' show ?thesis by blast
      qed
    qed
  qed
qed

lemma sorted_disjoint_chain:
  "\<forall>iv \<in> set xs. p \<le> fst iv \<and> fst iv < snd iv \<Longrightarrow> sorted (map fst xs) \<Longrightarrow>
   sorted_wrt disjoint_interiors xs \<Longrightarrow> chain p xs"
proof (induction xs arbitrary: p)
  case Nil
  show ?case by simp
next
  case (Cons x xs)
  have "\<forall>iv \<in> set xs. snd x \<le> fst iv \<and> fst iv < snd iv"
  proof
    fix iv assume iv: "iv \<in> set xs"
    from Cons.prems(1) iv have lt: "fst iv < snd iv" by simp
    from Cons.prems(2) iv have le: "fst x \<le> fst iv" by simp
    from Cons.prems(3) iv have "disjoint_interiors x iv" by simp
    with lt le have "snd x \<le> fst iv"
      by (auto simp: disjoint_interiors_def min_def max_def split: if_splits)
    with lt show "snd x \<le> fst iv \<and> fst iv < snd iv" by simp
  qed
  moreover from Cons.prems(2) have "sorted (map fst xs)" by simp
  moreover from Cons.prems(3) have "sorted_wrt disjoint_interiors xs" by simp
  ultimately have "chain (snd x) xs" by (rule Cons.IH)
  with Cons.prems(1) show ?case by simp
qed

lemma valid_report_chain: "valid_report t xs \<Longrightarrow> chain 0 xs"
  unfolding valid_report_def non_overlapping_def
  by (rule sorted_disjoint_chain) auto

lemma subseq_filter_weaker:
  assumes pq: "\<And>x. P x \<Longrightarrow> Q x"
  shows "subseq (filter P xs) (filter Q xs)"
proof -
  have "filter P xs = filter P (filter Q xs)" using pq by (auto intro: filter_cong)
  then show ?thesis by (metis subseq_filter_left)
qed

subsection \<open>The claims about compute_nonsilent_intervals\<close>

text \<open>
  C1. For a silence report that is sorted by start, non-overlapping and inside
  \<open>[0, total_duration]\<close>, with \<open>0 \<le> start < end\<close> for every entry, and for
  \<open>min_gap \<ge> 0\<close>, the intervals returned by \<open>compute_nonsilent_intervals\<close> are pairwise
  non-overlapping, strictly increasing in time, and each is longer than \<open>min_gap\<close>.
\<close>

theorem keep_plan_invariant:
  assumes valid: "valid_report total_duration silence" and gap: "0 \<le> min_gap"
  shows "non_overlapping (compute_nonsilent_intervals silence total_duration min_gap)
       \<and> strictly_increasing (compute_nonsilent_intervals silence total_duration min_gap)
       \<and> (\<forall>k \<in> set (compute_nonsilent_intervals silence total_duration min_gap).
             min_gap < snd k - fst k)"
proof -
  let ?long = "\<lambda>k::interval. snd k - fst k > min_gap"
  let ?cands = "spans 0 silence @ [(last_end 0 silence, total_duration)]"
  let ?out = "compute_nonsilent_intervals silence total_duration min_gap"
  have out: "?out = filter ?long ?cands" by (rule compute_filter)
  have long: "\<forall>k \<in> set ?out. min_gap < snd k - fst k" unfolding out by simp
  have "sorted_wrt (\<lambda>a b. snd a < fst b) ?cands"
    by (rule chain_spans_sorted [OF valid_report_chain [OF valid]])
  then have apart: "sorted_wrt (\<lambda>a b. snd a < fst b) ?out"
    unfolding out by (rule sorted_wrt_filter)
  have "sorted_wrt disjoint_interiors ?out"
    by (rule sorted_wrt_mono_rel [OF _ apart]) (auto simp: disjoint_interiors_def)
  moreover have "sorted_wrt (\<lambda>a b. fst a < fst b \<and> snd a < snd b) ?out"
  proof (rule sorted_wrt_mono_rel [OF _ apart])
    fix a b assume "a \<in> set ?out" "b \<in> set ?out" "snd a < fst b"
    with long gap show "fst a < fst b \<and> snd a < snd b" by fastforce
  qed
  ultimately show ?thesis using long
    by (simp add: non_overlapping_def strictly_increasing_def)
qed

theorem keep_plan_invariant_witness:
  "valid_report 30 [(5, 7), (20, 21)] \<and> (0::real) \<le> 1 / 10
   \<and> non_overlapping (compute_nonsilent_intervals [(5, 7), (20, 21)] 30 (1 / 10))
   \<and> strictly_increasing (compute_nonsilent_intervals [(5, 7), (20, 21)] 30 (1 / 10))
   \<and> list_all (\<lambda>k. 1 / 10 < snd k - fst k)
        (compute_nonsilent_intervals [(5, 7), (20, 21)] 30 (1 / 10))"
proof -
  have v: "valid_report 30 [(5, 7), (20, 21)]"
    by (simp add: valid_report_def non_overlapping_def disjoint_interiors_def)
  have g: "(0::real) \<le> 1 / 10" by simp
  from keep_plan_invariant [OF v g] v g show ?thesis by (simp add: list_all_iff)
qed

text \<open>
  C2. Scenario A: silence \<open>[(5,7),(20,21)]\<close>, total duration 30 and \<open>min_gap = 0.1\<close>
  give exactly \<open>[(0,5),(7,20),(21,30)]\<close>.
\<close>

theorem scenario_a:
  "compute_nonsilent_intervals [(5, 7), (20, 21)] 30 (1 / 10) = [(0, 5), (7, 20), (21, 30)]"
  by (simp add: compute_nonsilent_intervals_def sweep_step_def)

text \<open>
  C3. On an empty silence report the result is the single interval
  \<open>(0, total_duration)\<close> when \<open>total_duration > min_gap\<close>, and the empty list when
  \<open>total_duration \<le> min_gap\<close>.
\<close>

theorem empty_report:
  "compute_nonsilent_intervals [] total_duration min_gap =
     (if min_gap < total_duration then [(0, total_duration)] else [])"
  by (simp add: compute_nonsilent_intervals_def)

text \<open>
  C4. The comparison with \<open>min_gap\<close> is strict. When the gap between \<open>prev_end\<close> and the
  start of the next silence is exactly \<open>min_gap\<close>, going through that silence adds no
  interval: the list stays as it was and the result for the report up to that silence
  holds the intervals found before and at most the final span. When
  \<open>total_duration - prev_end\<close> is exactly \<open>min_gap\<close> after the loop, no final span is added:
  the result is the list the loop built.
\<close>

theorem min_gap_strict:
  "(start - snd (sweep_state min_gap xs) = min_gap \<longrightarrow>
      sweep_state min_gap (xs @ [(start, end)]) = (fst (sweep_state min_gap xs), end)
    \<and> compute_nonsilent_intervals (xs @ [(start, end)]) total_duration min_gap =
        fst (sweep_state min_gap xs)
        @ (if min_gap < total_duration - end then [(end, total_duration)] else []))
   \<and> (total_duration - snd (sweep_state min_gap xs) = min_gap \<longrightarrow>
        compute_nonsilent_intervals xs total_duration min_gap = fst (sweep_state min_gap xs))"
  by (simp add: sweep_state_eq compute_filter spans_append last_end_append)

theorem min_gap_strict_witness:
  "3 / 2 - snd (sweep_state (1 / 2) [(0, 1)]) = 1 / 2
   \<and> sweep_state (1 / 2) ([(0, 1)] @ [(3 / 2, 2)]) = ([], 2)
   \<and> compute_nonsilent_intervals ([(0, 1)] @ [(3 / 2, 2)]) 5 (1 / 2) = [(2, 5)]
   \<and> 3 / 2 - snd (sweep_state (1 / 2) [(0, 1)]) = 1 / 2
   \<and> compute_nonsilent_intervals [(0, 1)] (3 / 2) (1 / 2) = []"
proof -
  have h: "3 / 2 - snd (sweep_state (1 / 2) [(0, 1)]) = 1 / 2"
    by (simp add: sweep_state_def sweep_step_def)
  have s: "fst (sweep_state (1 / 2) [(0, 1)]) = []"
    by (simp add: sweep_state_def sweep_step_def)
  from min_gap_strict [of "3 / 2" "1 / 2" "[(0, 1)]" 2 5] h s
  have a: "sweep_state (1 / 2) ([(0, 1)] @ [(3 / 2, 2)]) = ([], 2)"
    and b: "compute_nonsilent_intervals ([(0, 1)] @ [(3 / 2, 2)]) 5 (1 / 2) = [(2, 5)]"
    by simp_all
  from min_gap_strict [of "3 / 2" "1 / 2" "[(0, 1)]" 2 "3 / 2"] h s
  have c: "compute_nonsilent_intervals [(0, 1)] (3 / 2) (1 / 2) = []" by simp
  from h a b c show ?thesis by simp
qed

text \<open>
  C5, as amended. The claim that a silence \<open>(2.0, 2.05)\<close> with \<open>min_gap = 0.1\<close> produces
  no cut does not hold: \<open>min_gap\<close> is compared with the length of a span to keep, never
  with the length of a silence. With a total duration more than 0.1 beyond 2.05 the result
  is exactly \<open>[(0, 2.0), (2.05, total_duration)]\<close>: one interval ends at 2.0 and the
  next starts at 2.05.
\<close>

theorem short_silence_is_cut:
  "43 / 20 < total_duration \<Longrightarrow>
   compute_nonsilent_intervals [(2, 41 / 20)] total_duration (1 / 10) =
     [(0, 2), (41 / 20, total_duration)]"
  by (simp add: compute_nonsilent_intervals_def sweep_step_def)

theorem short_silence_is_cut_witness:
  "(43 / 20 :: real) < 10
   \<and> compute_nonsilent_intervals [(2, 41 / 20)] 10 (1 / 10) = [(0, 2), (41 / 20, 10)]"
proof -
  have h: "(43 / 20 :: real) < 10" by simp
  from short_silence_is_cut [OF h] h show ?thesis by simp
qed

text \<open>
  The counterexample to C5 as it was stated: with total duration 10 the plan has an
  interval that ends at 2.0 and an interval that starts at 2.05.
\<close>

theorem short_silence_counterexample:
  "(0, 2) \<in> set (compute_nonsilent_intervals [(2, 41 / 20)] 10 (1 / 10))
   \<and> snd (0 :: real, 2 :: real) = 2
   \<and> (41 / 20, 10) \<in> set (compute_nonsilent_intervals [(2, 41 / 20)] 10 (1 / 10))
   \<and> fst (41 / 20 :: real, 10 :: real) = 41 / 20"
  by (simp add: compute_nonsilent_intervals_def sweep_step_def)

text \<open>
  C9. The keep intervals are complementary to the silence: for a silence report that is
  sorted by start, non-overlapping and inside \<open>[0, total_duration]\<close> (its entries being
  time intervals, \<open>0 \<le> start < end\<close>), the interior of every returned interval is disjoint
  from the interior of every silence interval, for every \<open>min_gap\<close>.
\<close>

theorem keep_disjoint_from_silence:
  assumes valid: "valid_report total_duration silence"
  shows "\<forall>k \<in> set (compute_nonsilent_intervals silence total_duration min_gap).
           \<forall>s \<in> set silence. disjoint_interiors k s"
proof (intro ballI)
  fix k s
  assume k: "k \<in> set (compute_nonsilent_intervals silence total_duration min_gap)"
    and s: "s \<in> set silence"
  from k have "k \<in> set (spans 0 silence @ [(last_end 0 silence, total_duration)])"
    unfolding compute_filter by (auto split: if_splits)
  with chain_spans_disjoint [OF valid_report_chain [OF valid], of total_duration] s
  have "snd k \<le> fst s \<or> snd s \<le> fst k" by blast
  then show "disjoint_interiors k s" by (auto simp: disjoint_interiors_def)
qed

theorem keep_disjoint_from_silence_witness:
  "valid_report 30 [(5, 7), (20, 21)]
   \<and> list_all (\<lambda>k. list_all (disjoint_interiors k) [(5, 7), (20, 21)])
        (compute_nonsilent_intervals [(5, 7), (20, 21)] 30 (1 / 10))"
proof -
  have v: "valid_report 30 [(5, 7), (20, 21)]"
    by (simp add: valid_report_def non_overlapping_def disjoint_interiors_def)
  from keep_disjoint_from_silence [OF v, of "1 / 10"] v show ?thesis
    by (simp add: list_all_iff)
qed

text \<open>
  C10. \<open>min_gap\<close> is a monotone filter: for every silence list and total duration and for
  \<open>g1 \<le> g2\<close>, the result with \<open>min_gap = g2\<close> is obtained from the result with
  \<open>min_gap = g1\<close> by deleting entries; the entries that stay are unchanged and in the
  same order.
\<close>

theorem min_gap_monotone:
  assumes "g1 \<le> g2"
  shows "subseq (compute_nonsilent_intervals silence total_duration g2)
                (compute_nonsilent_intervals silence total_duration g1)"
  unfolding compute_filter using assms by (intro subseq_filter_weaker) simp

theorem min_gap_monotone_witness:
  "(1 / 10 :: real) \<le> 6
   \<and> subseq (compute_nonsilent_intervals [(5, 7), (20, 21)] 30 6)
            (compute_nonsilent_intervals [(5, 7), (20, 21)] 30 (1 / 10))
   \<and> compute_nonsilent_intervals [(5, 7), (20, 21)] 30 6 = [(7, 20), (21, 30)]"
proof -
  have h: "(1 / 10 :: real) \<le> 6" by simp
  have e: "compute_nonsilent_intervals [(5, 7), (20, 21)] 30 6 = [(7, 20), (21, 30)]"
    by (simp add: compute_nonsilent_intervals_def sweep_step_def)
  from min_gap_monotone [OF h, of "[(5, 7), (20, 21)]" 30] h e show ?thesis by blast
qed

section \<open>Properties of the silence analyzer\<close>

lemma fold_append_map:
  "fold (\<lambda>i acc. acc @ [f i]) is acc = acc @ map f is"
  by (induction "is" arbitrary: acc) simp_all

lemma pair_up_zip: "pair_up a b = zip a b"
proof -
  have "pair_up a b = map (\<lambda>i. (a ! i, b ! i)) [0 ..< min (length a) (length b)]"
    by (simp add: pair_up_def fold_append_map)
  also have "\<dots> = zip a b"
    by (rule nth_equalityI) simp_all
  finally show ?thesis .
qed

lemma takeWhile_digits_all: "list_all is_digit (takeWhile is_digit s)"
  by (induction s) simp_all

lemma decimal_literal_digits:
  "w \<noteq> [] \<Longrightarrow> list_all is_digit w \<Longrightarrow> decimal_literal w"
  by (simp add: decimal_literal_def list_all_iff takeWhile_eq_all_conv[THEN iffD2] dropWhile_eq_Nil_conv[THEN iffD2])

lemma is_digit_dot: "\<not> is_digit CHR ''.''"
  by (simp add: is_digit_def)

lemma decimal_literal_dotted:
  assumes "w \<noteq> []" "list_all is_digit w" "list_all is_digit f"
  shows "decimal_literal (w @ CHR ''.'' # f)"
proof -
  from assms(2) have t: "takeWhile is_digit (w @ CHR ''.'' # f) = w"
    by (simp add: takeWhile_append2 list_all_iff is_digit_dot)
  from assms(2) have d: "dropWhile is_digit (w @ CHR ''.'' # f) = CHR ''.'' # f"
    by (simp add: dropWhile_append2 list_all_iff is_digit_dot)
  show ?thesis using assms by (simp add: decimal_literal_def t d)
qed

lemma capture_number_decimal:
  assumes "capture_number r = Some g"
  shows "decimal_literal g"
proof -
  let ?w = "takeWhile is_digit r"
  have wd: "list_all is_digit ?w" by (rule takeWhile_digits_all)
  from assms have w: "?w \<noteq> []"
    by (auto simp: capture_number_def Let_def split: if_splits)
  from assms w have "g = ?w \<or> (\<exists>cs. g = ?w @ CHR ''.'' # takeWhile is_digit cs)"
    by (auto simp: capture_number_def Let_def split: if_splits list.splits)
  then show ?thesis
  proof
    assume "g = ?w"
    with w wd show ?thesis by (simp add: decimal_literal_digits)
  next
    assume "\<exists>cs. g = ?w @ CHR ''.'' # takeWhile is_digit cs"
    then obtain cs where "g = ?w @ CHR ''.'' # takeWhile is_digit cs" ..
    with w wd show ?thesis by (simp add: decimal_literal_dotted takeWhile_digits_all)
  qed
qed

lemma match_here_decimal: "match_here key s = Some g \<Longrightarrow> decimal_literal g"
  by (auto simp: match_here_def dest: capture_number_decimal split: if_splits)

lemma re_search_decimal: "re_search key s = Some g \<Longrightarrow> decimal_literal g"
  by (induction s) (auto dest: match_here_decimal split: option.splits)


lemma collect_ok:
  assumes fl: "\<forall>g. decimal_literal g \<longrightarrow> py_float rt g \<noteq> None"
  shows "\<exists>acc'. collect rt word line acc = Inr acc'"
proof (cases "sublist word line")
  case False
  then show ?thesis by (simp add: collect_def)
next
  case True
  show ?thesis
  proof (cases "re_search (word @ '':'') line")
    case None
    with True show ?thesis by (simp add: collect_def)
  next
    case (Some g)
    then have "decimal_literal g" by (rule re_search_decimal)
    with fl obtain v where "py_float rt g = Some v" by auto
    with True Some show ?thesis by (simp add: collect_def)
  qed
qed

lemma scan_lines_ok:
  assumes fl: "\<forall>g. decimal_literal g \<longrightarrow> py_float rt g \<noteq> None"
  shows "\<exists>st'. scan_lines rt ls st = Inr st'"
proof (induction ls arbitrary: st)
  case Nil
  show ?case by simp
next
  case (Cons l ls)
  obtain a b where st: "st = (a, b)" by (cases st)
  from collect_ok [OF fl] obtain a' where a: "collect rt ''silence_start'' l a = Inr a'"
    by blast
  from collect_ok [OF fl] obtain b' where b: "collect rt ''silence_end'' l b = Inr b'"
    by blast
  from Cons.IH [of "(a', b')"] show ?case by (simp add: st a b)
qed


lemma decimal_float_total: "decimal_literal g \<Longrightarrow> decimal_float g \<noteq> None"
  by (simp add: decimal_float_def Let_def)

text \<open>
  C6. \<open>detect_silence\<close> pairs the i-th extracted start with the i-th extracted end and
  returns exactly \<open>min(#starts, #ends)\<close> intervals; with three starts and two ends it
  returns two intervals, the trailing start is dropped and no error is raised. Here
  \<open>starts\<close> and \<open>ends\<close> are the two lists the loop over the lines builds. The detector is
  assumed to have run (whatever its return code), and \<open>float\<close> to accept every string the
  pattern can capture, as Python's does.
\<close>

theorem detect_silence_pairs:
  assumes fl: "\<forall>g. decimal_literal g \<longrightarrow> py_float rt g \<noteq> None"
    and run: "run_process rt evs (detect_cmd input_file noise duration audio_track) =
                Completed returncode out err"
  shows "\<exists>starts ends ivs.
           scan_lines rt (splitlines err) ([], []) = Inr (starts, ends)
         \<and> detect_silence rt input_file noise duration audio_track evs =
             (Inr ivs, evs @ [Ran (detect_cmd input_file noise duration audio_track)])
         \<and> length ivs = min (length starts) (length ends)
         \<and> (\<forall>i < length ivs. ivs ! i = (starts ! i, ends ! i))
         \<and> (length starts = 3 \<and> length ends = 2 \<longrightarrow> length ivs = 2)"
proof -
  from scan_lines_ok [OF fl] obtain st where "scan_lines rt (splitlines err) ([], []) = Inr st"
    by blast
  then obtain starts ends where
    scan: "scan_lines rt (splitlines err) ([], []) = Inr (starts, ends)"
    by (cases st) simp
  have det: "detect_silence rt input_file noise duration audio_track evs =
      (Inr (zip starts ends), evs @ [Ran (detect_cmd input_file noise duration audio_track)])"
    by (simp add: detect_silence_def subprocess_run_def run parse_silence_def scan pair_up_zip)
  have "length (zip starts ends) = min (length starts) (length ends)" by simp
  moreover have "\<forall>i < length (zip starts ends). zip starts ends ! i = (starts ! i, ends ! i)"
    by simp
  ultimately show ?thesis using scan det by fastforce
qed

theorem detect_silence_pairs_witness:
  "detect_silence (reference_runtime scenario_d_log ''30.0'') ''in.mp4'' ''-50dB'' ''0.5'' 0 [] =
     (Inr [(3 / 2, 16 / 5), (10, 49 / 4)], [Ran (detect_cmd ''in.mp4'' ''-50dB'' ''0.5'' 0)])"
proof -
  let ?rt = "reference_runtime scenario_d_log ''30.0''"
  let ?cmd = "detect_cmd ''in.mp4'' ''-50dB'' ''0.5'' 0"
  have fl: "\<forall>g. decimal_literal g \<longrightarrow> py_float ?rt g \<noteq> None"
    by (simp add: reference_runtime_def decimal_float_total)
  have run: "run_process ?rt [] ?cmd = Completed 0 [] scenario_d_log"
    by (simp add: reference_runtime_def detect_cmd_def)
  have scan: "scan_lines ?rt (splitlines scenario_d_log) ([], []) =
      Inr ([3 / 2, 10, 57 / 2], [16 / 5, 49 / 4])"
    by code_simp
  from detect_silence_pairs [OF fl run] scan obtain ivs where
    det: "detect_silence ?rt ''in.mp4'' ''-50dB'' ''0.5'' 0 [] = (Inr ivs, [] @ [Ran ?cmd])"
    and len: "length ivs = 2"
    and nth: "\<forall>i < length ivs. ivs ! i = ([3 / 2, 10, 57 / 2] ! i, [16 / 5, 49 / 4] ! i)"
    by auto
  from len nth have "ivs ! 0 = (3 / 2, 16 / 5)" "ivs ! 1 = (10, 49 / 4)" by auto
  with len have "ivs = [(3 / 2, 16 / 5), (10, 49 / 4)]"
    by (intro nth_equalityI) (auto simp: less_Suc_eq numeral_2_eq_2)
  with det show ?thesis by simp
qed

section \<open>Properties of the run\<close>

lemma subprocess_run_error:
  "subprocess_run rt check cmd evs = (Inl e, evs') \<Longrightarrow>
     e = OSError \<or> (\<exists>rc. e = CalledProcessError rc cmd)"
  by (auto simp: subprocess_run_def split: proc.splits if_splits)

lemma subprocess_run_ok:
  "subprocess_run rt check cmd evs = (Inr r, evs') \<Longrightarrow> evs' = evs @ [Ran cmd]"
  by (auto simp: subprocess_run_def split: proc.splits if_splits)

lemma subprocess_run_unchecked:
  "subprocess_run rt False cmd evs =
     (case run_process rt evs cmd of
        LaunchFailure \<Rightarrow> (Inl OSError, evs)
      | Completed rc out err \<Rightarrow> (Inr (out, err), evs @ [Ran cmd]))"
  by (simp add: subprocess_run_def split: proc.splits)

lemma collect_error: "collect rt word line acc = Inl e \<Longrightarrow> e = ValueError"
  by (auto simp: collect_def split: if_splits option.splits)

lemma scan_lines_error: "scan_lines rt ls st = Inl e \<Longrightarrow> e = ValueError"
proof (induction ls arbitrary: st)
  case Nil
  then show ?case by simp
next
  case (Cons l ls)
  obtain a b where st: "st = (a, b)" by (cases st)
  from Cons.prems Cons.IH show ?case
    by (auto simp: st dest: collect_error split: sum.splits)
qed

lemma detect_silence_error:
  "detect_silence rt i n d t evs = (Inl e, evs') \<Longrightarrow> e = OSError \<or> e = ValueError"
  by (auto simp: detect_silence_def subprocess_run_unchecked parse_silence_def
      dest: scan_lines_error split: proc.splits sum.splits prod.splits)

lemma detect_silence_events:
  "detect_silence rt i n d t evs = (Inr ivs, evs') \<Longrightarrow> evs' = evs @ [Ran (detect_cmd i n d t)]"
  by (auto simp: detect_silence_def subprocess_run_unchecked split: proc.splits)

lemma get_video_duration_cases:
  "get_video_duration rt i evs =
     (case run_process rt evs (probe_cmd i) of
        LaunchFailure \<Rightarrow> (Inl OSError, evs)
      | Completed rc out err \<Rightarrow>
          (case py_float rt (strip out) of
             Some d \<Rightarrow> (Inr d, evs @ [Ran (probe_cmd i)])
           | None \<Rightarrow> (Inl (SystemExit 1), evs @ [Ran (probe_cmd i)])))"
  by (simp add: get_video_duration_def subprocess_run_unchecked split: proc.splits)

lemma cut_loop_error:
  "cut_loop rt i t re idx plan segs evs = (Inl e, evs') \<Longrightarrow>
     e = OSError \<or> (\<exists>rc c. e = CalledProcessError rc c)"
proof (induction plan arbitrary: idx segs evs)
  case Nil
  then show ?case by simp
next
  case (Cons iv plan)
  show ?case
  proof (cases "subprocess_run rt True (cut_cmd rt i re iv (segment_path rt t idx)) evs")
    case (Pair r evs1)
    show ?thesis
    proof (cases r)
      case (Inl e1)
      with Pair Cons.prems have "e = e1" by simp
      with Pair Inl subprocess_run_error show ?thesis by blast
    next
      case (Inr x)
      with Pair Cons.prems
      have "cut_loop rt i t re (Suc idx) plan (segs @ [segment_path rt t idx]) evs1 = (Inl e, evs')"
        by simp
      then show ?thesis by (rule Cons.IH)
    qed
  qed
qed

lemma cut_video_segments_error:
  "cut_video_segments rt i plan t re evs = (Inl e, evs') \<Longrightarrow>
     e = OSError \<or> (\<exists>rc c. e = CalledProcessError rc c)"
  unfolding cut_video_segments_def by (rule cut_loop_error)

lemma concat_segments_error:
  "concat_segments rt segs out t evs = (Inl e, evs') \<Longrightarrow>
     e = OSError \<or> (\<exists>rc c. e = CalledProcessError rc c)"
  by (auto simp: concat_segments_def Let_def dest: subprocess_run_error
      split: prod.splits sum.splits)

lemma main_after_plan:
  assumes "detect_silence rt (arg_input a) (arg_noise a) (arg_duration a) (arg_audio_track a) evs
             = (Inr ivs, evs1)"
    and "get_video_duration rt (arg_input a) evs1 = (Inr d, evs2)"
    and "compute_nonsilent_intervals ivs d (1 / 10) \<noteq> []"
  shows "fst (main rt a evs) \<noteq> Inl (SystemExit c)"
proof -
  let ?plan = "compute_nonsilent_intervals ivs d (1 / 10)"
  let ?t = "mkdtemp rt evs2"
  obtain r3 evs3 where cut:
    "cut_video_segments rt (arg_input a) ?plan ?t (arg_reencode a) evs2 = (r3, evs3)"
    by (cases "cut_video_segments rt (arg_input a) ?plan ?t (arg_reencode a) evs2")
  show ?thesis
  proof (cases r3)
    case (Inl e)
    with cut cut_video_segments_error have "e = OSError \<or> (\<exists>rc c. e = CalledProcessError rc c)"
      by blast
    with assms cut Inl show ?thesis by (auto simp: main_def Let_def)
  next
    case (Inr segs)
    obtain r4 evs4 where con: "concat_segments rt segs (arg_output a) ?t evs3 = (r4, evs4)"
      by (cases "concat_segments rt segs (arg_output a) ?t evs3")
    have "r4 \<noteq> Inl (SystemExit c)"
    proof
      assume "r4 = Inl (SystemExit c)"
      with con have "concat_segments rt segs (arg_output a) ?t evs3 = (Inl (SystemExit c), evs4)"
        by simp
      from concat_segments_error [OF this] show False by simp
    qed
    with assms cut Inr con show ?thesis by (simp add: main_def Let_def)
  qed
qed


text \<open>
  When \<open>main\<close> ends in \<open>SystemExit\<close>: the two \<open>sys.exit(1)\<close> calls are the only ones, and
  both come before the temporary directory is created.
\<close>

lemma sys_exit_cases:
  "(fst (main rt a evs) = Inl (SystemExit c) \<longleftrightarrow>
      c = 1 \<and>
      (\<exists>ivs evs1 rc out err.
          detect_silence rt (arg_input a) (arg_noise a) (arg_duration a) (arg_audio_track a) evs
            = (Inr ivs, evs1)
        \<and> run_process rt evs1 (probe_cmd (arg_input a)) = Completed rc out err
        \<and> (case py_float rt (strip out) of
              None \<Rightarrow> True
            | Some d \<Rightarrow> compute_nonsilent_intervals ivs d (1 / 10) = [])))
   \<and> (fst (main rt a evs) = Inl (SystemExit c) \<longrightarrow>
        snd (main rt a evs) =
          evs @ [Ran (detect_cmd (arg_input a) (arg_noise a) (arg_duration a) (arg_audio_track a)),
                 Ran (probe_cmd (arg_input a))])
   \<and> compute_nonsilent_intervals [(0, 15)] 15 (1 / 10) = []"
proof -
  let ?det = "detect_silence rt (arg_input a) (arg_noise a) (arg_duration a) (arg_audio_track a) evs"
  let ?dcmd = "detect_cmd (arg_input a) (arg_noise a) (arg_duration a) (arg_audio_track a)"
  let ?pcmd = "probe_cmd (arg_input a)"
  let ?rhs = "c = 1 \<and>
      (\<exists>ivs evs1 rc out err.
          ?det = (Inr ivs, evs1)
        \<and> run_process rt evs1 ?pcmd = Completed rc out err
        \<and> (case py_float rt (strip out) of
              None \<Rightarrow> True
            | Some d \<Rightarrow> compute_nonsilent_intervals ivs d (1 / 10) = []))"
  let ?log = "snd (main rt a evs) = evs @ [Ran ?dcmd, Ran ?pcmd]"
  have sc: "compute_nonsilent_intervals [(0, 15)] 15 (1 / 10) = []"
    by (simp add: compute_nonsilent_intervals_def sweep_step_def)
  obtain r1 evs1 where det: "?det = (r1, evs1)" by (cases ?det)
  have "(fst (main rt a evs) = Inl (SystemExit c) \<longleftrightarrow> ?rhs)
      \<and> (fst (main rt a evs) = Inl (SystemExit c) \<longrightarrow> ?log)"
  proof (cases r1)
    case (Inl e)
    with det detect_silence_error have "e = OSError \<or> e = ValueError" by blast
    with det Inl show ?thesis by (auto simp: main_def)
  next
    case (Inr ivs)
    with det detect_silence_events have evs1: "evs1 = evs @ [Ran ?dcmd]" by blast
    show ?thesis
    proof (cases "run_process rt evs1 ?pcmd")
      case LaunchFailure
      with det Inr show ?thesis by (simp add: main_def get_video_duration_cases)
    next
      case (Completed rc out err)
      show ?thesis
      proof (cases "py_float rt (strip out)")
        case None
        with det Inr Completed evs1 show ?thesis
          by (simp add: main_def get_video_duration_cases)
      next
        case (Some d)
        with Completed have dur:
          "get_video_duration rt (arg_input a) evs1 = (Inr d, evs1 @ [Ran ?pcmd])"
          by (simp add: get_video_duration_cases)
        show ?thesis
        proof (cases "compute_nonsilent_intervals ivs d (1 / 10) = []")
          case True
          with det Inr Completed Some dur evs1 show ?thesis by (simp add: main_def)
        next
          case False
          from det Inr have "?det = (Inr ivs, evs1)" by simp
          from main_after_plan [OF this dur False]
          have "fst (main rt a evs) \<noteq> Inl (SystemExit c)" .
          with det Inr Completed Some False show ?thesis by simp
        qed
      qed
    qed
  qed
  with sc show ?thesis by blast
qed


lemma exit_status_one:
  "exit_status r = 1 \<longleftrightarrow>
     r = Inl (SystemExit 1)
   \<or> (\<exists>e. r = Inl e
          \<and> (e = OSError \<or> e = ValueError \<or> (\<exists>rc cmd. e = CalledProcessError rc cmd)))"
proof (cases r)
  case (Inl e)
  then show ?thesis by (cases e) auto
next
  case (Inr u)
  then show ?thesis by simp
qed

text \<open>
  C7, as amended. The run ends with exit status 1 exactly in these cases: one of the two
  calls of \<open>sys.exit(1)\<close> is reached, or an exception is left uncaught (an external program
  that cannot be started, a checked command that returns a non-zero code, a \<open>ValueError\<close> of
  \<open>float\<close>). \<open>sys.exit(1)\<close> is reached exactly in two conditions, both before any
  segment is extracted: the text of the duration probe is not accepted by \<open>float\<close>, or the
  computed keep plan is empty, as for the silence \<open>[(0,15)]\<close> with duration 15. In both,
  the only commands run are the detector and the prober: nothing is cut or concatenated
  and no file is written, so no output file is produced.
\<close>

theorem run_exit_status:
  "(exit_status (fst (main rt a evs)) = 1 \<longleftrightarrow>
      (\<exists>ivs evs1 rc out err.
          detect_silence rt (arg_input a) (arg_noise a) (arg_duration a) (arg_audio_track a) evs
            = (Inr ivs, evs1)
        \<and> run_process rt evs1 (probe_cmd (arg_input a)) = Completed rc out err
        \<and> (case py_float rt (strip out) of
              None \<Rightarrow> True
            | Some d \<Rightarrow> compute_nonsilent_intervals ivs d (1 / 10) = []))
    \<or> (\<exists>e. fst (main rt a evs) = Inl e
           \<and> (e = OSError \<or> e = ValueError \<or> (\<exists>rc cmd. e = CalledProcessError rc cmd))))
   \<and> (fst (main rt a evs) = Inl (SystemExit c) \<longleftrightarrow>
        c = 1 \<and>
        (\<exists>ivs evs1 rc out err.
            detect_silence rt (arg_input a) (arg_noise a) (arg_duration a) (arg_audio_track a) evs
              = (Inr ivs, evs1)
          \<and> run_process rt evs1 (probe_cmd (arg_input a)) = Completed rc out err
          \<and> (case py_float rt (strip out) of
                None \<Rightarrow> True
              | Some d \<Rightarrow> compute_nonsilent_intervals ivs d (1 / 10) = [])))
   \<and> (fst (main rt a evs) = Inl (SystemExit c) \<longrightarrow>
        snd (main rt a evs) =
          evs @ [Ran (detect_cmd (arg_input a) (arg_noise a) (arg_duration a) (arg_audio_track a)),
                 Ran (probe_cmd (arg_input a))])
   \<and> compute_nonsilent_intervals [(0, 15)] 15 (1 / 10) = []"
proof -
  let ?two = "\<exists>ivs evs1 rc out err.
          detect_silence rt (arg_input a) (arg_noise a) (arg_duration a) (arg_audio_track a) evs
            = (Inr ivs, evs1)
        \<and> run_process rt evs1 (probe_cmd (arg_input a)) = Completed rc out err
        \<and> (case py_float rt (strip out) of
              None \<Rightarrow> True
            | Some d \<Rightarrow> compute_nonsilent_intervals ivs d (1 / 10) = [])"
  let ?uncaught = "\<exists>e. fst (main rt a evs) = Inl e
      \<and> (e = OSError \<or> e = ValueError \<or> (\<exists>rc cmd. e = CalledProcessError rc cmd))"
  from sys_exit_cases [of rt a evs 1]
  have one: "fst (main rt a evs) = Inl (SystemExit 1) \<longleftrightarrow> ?two" by simp
  have "exit_status (fst (main rt a evs)) = 1 \<longleftrightarrow>
      fst (main rt a evs) = Inl (SystemExit 1) \<or> ?uncaught"
    by (rule exit_status_one)
  with one have "exit_status (fst (main rt a evs)) = 1 \<longleftrightarrow> ?two \<or> ?uncaught" by simp
  with sys_exit_cases [of rt a evs c] show ?thesis by blast
qed

theorem run_exit_status_witness:
  "exit_status (fst (main (reference_runtime scenario_c_log ''15.000000'') example_args [])) = 1
   \<and> fst (main (reference_runtime scenario_c_log ''15.000000'') example_args []) =
       Inl (SystemExit 1)
   \<and> snd (main (reference_runtime scenario_c_log ''15.000000'') example_args []) =
       [Ran (detect_cmd ''in.mp4'' ''-50dB'' ''0.5'' 0), Ran (probe_cmd ''in.mp4'')]
   \<and> exit_status (fst (main (reference_runtime scenario_d_log ''N/A'') example_args [])) = 1
   \<and> exit_status (fst (main (reference_runtime scenario_d_log ''30.0'') example_args [])) = 0"
proof -
  let ?c = "reference_runtime scenario_c_log ''15.000000''"
  let ?d = "reference_runtime scenario_d_log ''N/A''"
  let ?dcmd = "detect_cmd ''in.mp4'' ''-50dB'' ''0.5'' 0"
  have args: "arg_input example_args = ''in.mp4''" "arg_noise example_args = ''-50dB''"
    "arg_duration example_args = ''0.5''" "arg_audio_track example_args = 0"
    by (simp_all add: example_args_def)
  have det_c: "detect_silence ?c ''in.mp4'' ''-50dB'' ''0.5'' 0 [] = (Inr [(0, 15)], [Ran ?dcmd])"
    by code_simp
  have run_c: "run_process ?c [Ran ?dcmd] (probe_cmd ''in.mp4'') = Completed 0 ''15.000000'' []"
    by (simp add: reference_runtime_def probe_cmd_def)
  have fl_c: "py_float ?c (strip ''15.000000'') = Some 15"
    by code_simp
  have plan_c: "compute_nonsilent_intervals [(0, 15)] 15 (1 / 10) = []"
    by (simp add: compute_nonsilent_intervals_def sweep_step_def)
  from det_c run_c fl_c plan_c
  have two_c: "\<exists>ivs evs1 rc out err.
          detect_silence ?c (arg_input example_args) (arg_noise example_args)
            (arg_duration example_args) (arg_audio_track example_args) [] = (Inr ivs, evs1)
        \<and> run_process ?c evs1 (probe_cmd (arg_input example_args)) = Completed rc out err
        \<and> (case py_float ?c (strip out) of
              None \<Rightarrow> True
            | Some d \<Rightarrow> compute_nonsilent_intervals ivs d (1 / 10) = [])"
    unfolding args by (intro exI [of _ "[(0, 15)]"] exI [of _ "[Ran ?dcmd]"]
        exI [of _ 0] exI [of _ "''15.000000''"] exI [of _ "[]"]) simp
  from run_exit_status [of ?c example_args "[]" 1] two_c
  have c0: "exit_status (fst (main ?c example_args [])) = 1"
    and c1: "fst (main ?c example_args []) = Inl (SystemExit 1)"
    and c2: "snd (main ?c example_args []) = [Ran ?dcmd, Ran (probe_cmd ''in.mp4'')]"
    by (simp_all add: args)
  have det_d: "detect_silence ?d ''in.mp4'' ''-50dB'' ''0.5'' 0 [] =
      (Inr [(3 / 2, 16 / 5), (10, 49 / 4)], [Ran ?dcmd])"
    by code_simp
  have run_d: "run_process ?d [Ran ?dcmd] (probe_cmd ''in.mp4'') = Completed 0 ''N/A'' []"
    by (simp add: reference_runtime_def probe_cmd_def)
  have fl_d: "py_float ?d (strip ''N/A'') = None"
    by code_simp
  from det_d run_d fl_d
  have two_d: "\<exists>ivs evs1 rc out err.
          detect_silence ?d (arg_input example_args) (arg_noise example_args)
            (arg_duration example_args) (arg_audio_track example_args) [] = (Inr ivs, evs1)
        \<and> run_process ?d evs1 (probe_cmd (arg_input example_args)) = Completed rc out err
        \<and> (case py_float ?d (strip out) of
              None \<Rightarrow> True
            | Some d \<Rightarrow> compute_nonsilent_intervals ivs d (1 / 10) = [])"
    unfolding args by (intro exI [of _ "[(3 / 2, 16 / 5), (10, 49 / 4)]"] exI [of _ "[Ran ?dcmd]"]
        exI [of _ 0] exI [of _ "''N/A''"] exI [of _ "[]"]) simp
  from run_exit_status [of ?d example_args "[]" 1] two_d
  have d1: "exit_status (fst (main ?d example_args [])) = 1" by simp
  have ok: "exit_status (fst (main (reference_runtime scenario_d_log ''30.0'') example_args []))
      = 0"
    by code_simp
  from c0 c1 c2 d1 ok show ?thesis by simp
qed

text \<open>
  The counterexample to C7 as it was stated: when ffmpeg cannot be started, the run ends
  with status 1 by an uncaught \<open>OSError\<close>, before any segment is extracted; no command has
  run, so the duration probe gave no text and no keep plan was computed.
\<close>

theorem run_exit_status_counterexample:
  "exit_status (fst (main launch_failure_runtime example_args [])) = 1
   \<and> fst (main launch_failure_runtime example_args []) = Inl OSError
   \<and> snd (main launch_failure_runtime example_args []) = []"
  by code_simp

section \<open>Properties of the extractor and the stitcher\<close>

lemma cut_loop_ok:
  "cut_loop rt i t re idx plan segs evs = (Inr out, evs') \<Longrightarrow>
     out = segs @ map (\<lambda>(k, iv). segment_path rt t k) (enumerate idx plan)
   \<and> evs' = evs @ map (\<lambda>(k, iv). Ran (cut_cmd rt i re iv (segment_path rt t k)))
                   (enumerate idx plan)"
proof (induction plan arbitrary: idx segs evs)
  case Nil
  then show ?case by simp
next
  case (Cons iv plan)
  let ?cmd = "cut_cmd rt i re iv (segment_path rt t idx)"
  obtain r evs1 where run: "subprocess_run rt True ?cmd evs = (r, evs1)"
    by (cases "subprocess_run rt True ?cmd evs")
  show ?case
  proof (cases r)
    case (Inl e)
    with run Cons.prems show ?thesis by simp
  next
    case (Inr x)
    with run have evs1: "evs1 = evs @ [Ran ?cmd]" by (simp add: subprocess_run_ok)
    from run Inr Cons.prems
    have "cut_loop rt i t re (Suc idx) plan (segs @ [segment_path rt t idx]) evs1 = (Inr out, evs')"
      by simp
    from Cons.IH [OF this] evs1 show ?thesis by simp
  qed
qed

lemma cut_loop_prefix:
  "\<exists>n \<le> length plan.
     snd (cut_loop rt i t re idx plan segs evs) =
       evs @ map (\<lambda>(k, iv). Ran (cut_cmd rt i re iv (segment_path rt t k)))
               (take n (enumerate idx plan))"
proof (induction plan arbitrary: idx segs evs)
  case Nil
  show ?case by simp
next
  case (Cons iv plan)
  let ?cmd = "cut_cmd rt i re iv (segment_path rt t idx)"
  let ?f = "\<lambda>(k, iv). Ran (cut_cmd rt i re iv (segment_path rt t k))"
  obtain r evs1 where run: "subprocess_run rt True ?cmd evs = (r, evs1)"
    by (cases "subprocess_run rt True ?cmd evs")
  show ?case
  proof (cases r)
    case (Inl e)
    with run have "evs1 = evs \<or> evs1 = evs @ [Ran ?cmd]"
      by (auto simp: subprocess_run_def split: proc.splits if_splits)
    then show ?thesis
    proof
      assume "evs1 = evs"
      with run Inl show ?thesis by (intro exI [of _ 0]) simp
    next
      assume "evs1 = evs @ [Ran ?cmd]"
      with run Inl show ?thesis by (intro exI [of _ 1]) simp
    qed
  next
    case (Inr x)
    with run have evs1: "evs1 = evs @ [Ran ?cmd]" by (simp add: subprocess_run_ok)
    from Cons.IH [of "Suc idx" "segs @ [segment_path rt t idx]" evs1]
    obtain n where n: "n \<le> length plan"
      and eq: "snd (cut_loop rt i t re (Suc idx) plan (segs @ [segment_path rt t idx]) evs1) =
        evs1 @ map ?f (take n (enumerate (Suc idx) plan))"
      by blast
    from run Inr eq evs1 n show ?thesis by (intro exI [of _ "Suc n"]) (simp add: Let_def)
  qed
qed

lemma map_index_enumerate:
  "map (\<lambda>(k, iv). g k) (enumerate idx xs) = map g [idx ..< idx + length xs]"
  by (rule nth_equalityI) (simp_all add: nth_enumerate_eq)

lemma fold_append_concat:
  "fold (\<lambda>x acc. acc @ f x) xs acc = acc @ concat (map f xs)"
  by (induction xs arbitrary: acc) simp_all

lemma manifest_text_concat: "manifest_text segs = concat (map manifest_line segs)"
  by (simp add: manifest_text_def fold_append_concat)

lemma splitlines_from_line:
  "\<forall>c \<in> set l. \<not> is_linebreak c \<Longrightarrow>
     splitlines_from cur (l @ CHR 0x0A # rest) = (cur @ l) # splitlines_from [] rest"
proof (induction l arbitrary: cur)
  case Nil
  show ?case by (cases rest) (simp_all add: is_linebreak_def)
next
  case (Cons c l)
  from Cons.prems have c: "\<not> is_linebreak c" and l: "\<forall>c \<in> set l. \<not> is_linebreak c"
    by simp_all
  from c have cr: "c \<noteq> CHR 0x0D" by (auto simp: is_linebreak_def)
  obtain d ds where tl: "l @ CHR 0x0A # rest = d # ds" by (cases "l @ CHR 0x0A # rest") auto
  have "splitlines_from cur ((c # l) @ CHR 0x0A # rest) = splitlines_from (cur @ [c]) (d # ds)"
    using c cr by (simp add: tl)
  also have "\<dots> = ((cur @ [c]) @ l) # splitlines_from [] rest"
    unfolding tl [symmetric] by (rule Cons.IH [OF l])
  finally show ?case by simp
qed

lemma splitlines_manifest:
  assumes "\<forall>seg \<in> set segs. \<forall>c \<in> set seg. \<not> is_linebreak c"
  shows "splitlines (manifest_text segs) =
           map (\<lambda>seg. ''file '' @ [CHR 0x27] @ seg @ [CHR 0x27]) segs"
  using assms
proof (induction segs)
  case Nil
  show ?case by (simp add: splitlines_def manifest_text_concat)
next
  case (Cons seg segs)
  let ?l = "''file '' @ [CHR 0x27] @ seg @ [CHR 0x27]"
  from Cons.prems have "\<forall>c \<in> set ?l. \<not> is_linebreak c"
    by (auto simp: is_linebreak_def)
  from splitlines_from_line [OF this, of "[]" "manifest_text segs"]
  have "splitlines_from [] (?l @ CHR 0x0A # manifest_text segs) =
          ?l # splitlines_from [] (manifest_text segs)" by simp
  moreover have "manifest_text (seg # segs) = ?l @ CHR 0x0A # manifest_text segs"
    by (simp add: manifest_text_concat manifest_line_def)
  moreover from Cons have "splitlines_from [] (manifest_text segs) =
      map (\<lambda>seg. ''file '' @ [CHR 0x27] @ seg @ [CHR 0x27]) segs"
    by (simp add: splitlines_def)
  ultimately show ?case by (simp add: splitlines_def)
qed


text \<open>
  C8. \<open>cut_video_segments\<close> goes through the keep plan in order: the command for the
  interval at index \<open>idx\<close> writes \<open>segment_{idx}.mp4\<close> in the temporary directory, the
  commands are run in the order of the plan (all of them when the function returns, the
  first \<open>n\<close> of them when a command fails), and the returned paths are in that order.
  \<open>concat_segments\<close> then writes a manifest that has one line per segment, in the order
  of the list, each line holding the quoted path; the lines are read back with
  \<open>splitlines\<close>, for paths that contain no line break.
\<close>

theorem segments_in_plan_order:
  "(cut_video_segments rt input_file plan temp_dir reencode evs = (Inr segment_files, evs') \<longrightarrow>
       segment_files =
         map (\<lambda>idx. path_join rt temp_dir (''segment_'' @ str_nat idx @ ''.mp4''))
           [0 ..< length plan]
     \<and> evs' = evs @ map (\<lambda>(idx, iv).
                  Ran (cut_cmd rt input_file reencode iv
                        (path_join rt temp_dir (''segment_'' @ str_nat idx @ ''.mp4''))))
                (enumerate 0 plan))
   \<and> (\<exists>n \<le> length plan.
         snd (cut_video_segments rt input_file plan temp_dir reencode evs) =
           evs @ map (\<lambda>(idx, iv).
                  Ran (cut_cmd rt input_file reencode iv
                        (path_join rt temp_dir (''segment_'' @ str_nat idx @ ''.mp4''))))
                (take n (enumerate 0 plan)))
   \<and> (\<exists>r rest.
         concat_segments rt files output_file temp_dir evs =
           (r, evs @ Wrote (path_join rt temp_dir ''segments.txt'')
                      (concat (map manifest_line files)) # rest))
   \<and> ((\<forall>seg \<in> set files. \<forall>c \<in> set seg. \<not> is_linebreak c) \<longrightarrow>
         splitlines (manifest_text files) =
           map (\<lambda>seg. ''file '' @ [CHR 0x27] @ seg @ [CHR 0x27]) files)"
proof -
  let ?f = "\<lambda>(idx, iv). Ran (cut_cmd rt input_file reencode iv (segment_path rt temp_dir idx))"
  have a: "cut_video_segments rt input_file plan temp_dir reencode evs = (Inr segment_files, evs')
      \<longrightarrow> segment_files = map (segment_path rt temp_dir) [0 ..< length plan]
        \<and> evs' = evs @ map ?f (enumerate 0 plan)"
  proof
    assume "cut_video_segments rt input_file plan temp_dir reencode evs = (Inr segment_files, evs')"
    then have "cut_loop rt input_file temp_dir reencode 0 plan [] evs = (Inr segment_files, evs')"
      by (simp add: cut_video_segments_def)
    from cut_loop_ok [OF this]
    show "segment_files = map (segment_path rt temp_dir) [0 ..< length plan]
        \<and> evs' = evs @ map ?f (enumerate 0 plan)"
      by (simp add: map_index_enumerate)
  qed
  have b: "\<exists>n \<le> length plan.
      snd (cut_video_segments rt input_file plan temp_dir reencode evs) =
        evs @ map ?f (take n (enumerate 0 plan))"
    unfolding cut_video_segments_def by (rule cut_loop_prefix)
  have c: "\<exists>r rest. concat_segments rt files output_file temp_dir evs =
      (r, evs @ Wrote (path_join rt temp_dir ''segments.txt'')
                 (concat (map manifest_line files)) # rest)"
    by (auto simp: concat_segments_def Let_def subprocess_run_def manifest_text_concat
        split: proc.splits)
  have d: "(\<forall>seg \<in> set files. \<forall>c \<in> set seg. \<not> is_linebreak c) \<longrightarrow>
      splitlines (manifest_text files) =
        map (\<lambda>seg. ''file '' @ [CHR 0x27] @ seg @ [CHR 0x27]) files"
    using splitlines_manifest by blast
  from a b c d show ?thesis unfolding segment_path_def by blast
qed


theorem segments_in_plan_order_witness:
  "fst (cut_video_segments (reference_runtime [] []) ''in.mp4'' [(0, 5), (7, 20), (21, 30)]
          ''/tmp/t'' False []) =
     Inr [''/tmp/t/segment_0.mp4'', ''/tmp/t/segment_1.mp4'', ''/tmp/t/segment_2.mp4'']
   \<and> splitlines (manifest_text
         [''/tmp/t/segment_0.mp4'', ''/tmp/t/segment_1.mp4'', ''/tmp/t/segment_2.mp4'']) =
       [''file '' @ [CHR 0x27] @ ''/tmp/t/segment_0.mp4'' @ [CHR 0x27],
        ''file '' @ [CHR 0x27] @ ''/tmp/t/segment_1.mp4'' @ [CHR 0x27],
        ''file '' @ [CHR 0x27] @ ''/tmp/t/segment_2.mp4'' @ [CHR 0x27]]"
proof -
  let ?rt = "reference_runtime [] []"
  let ?plan = "[(0, 5), (7, 20), (21, 30)] :: interval list"
  let ?segs = "[''/tmp/t/segment_0.mp4'', ''/tmp/t/segment_1.mp4'', ''/tmp/t/segment_2.mp4'']"
  obtain r evs' where run:
    "cut_video_segments ?rt ''in.mp4'' ?plan ''/tmp/t'' False [] = (r, evs')"
    by (cases "cut_video_segments ?rt ''in.mp4'' ?plan ''/tmp/t'' False []")
  have "isl (fst (cut_video_segments ?rt ''in.mp4'' ?plan ''/tmp/t'' False [])) = False"
    by code_simp
  with run obtain segs where r: "r = Inr segs" by (cases r) auto
  have names: "map (\<lambda>idx. path_join ?rt ''/tmp/t'' (''segment_'' @ str_nat idx @ ''.mp4''))
      [0 ..< length ?plan] = ?segs"
    by code_simp
  have nb: "\<forall>seg \<in> set ?segs. \<forall>c \<in> set seg. \<not> is_linebreak c"
    by (simp add: is_linebreak_def)
  from segments_in_plan_order [of ?rt "''in.mp4''" ?plan "''/tmp/t''" False "[]" segs evs'
      ?segs "''out.mp4''"] run r names nb
  have "segs = ?segs"
    and "splitlines (manifest_text ?segs) =
        map (\<lambda>seg. ''file '' @ [CHR 0x27] @ seg @ [CHR 0x27]) ?segs"
    by simp_all
  with run r show ?thesis by simp
qed

end
